theory Spec2Isabelle
  imports Main "HOL-Library.Word"
begin

unbundle bit_operations_syntax

section \<open>The memory of the 32-bit target\<close>

text \<open>
  \<^verbatim>\<open>fb_alloc.c\<close> runs on 32-bit little-endian ARM microcontrollers (a board
  configuration in the sources puts the frame buffer and the \<^verbatim>\<open>fb_alloc\<close> region into the
  240K of SRAM at \<^verbatim>\<open>0x20004000\<close>): \<^verbatim>\<open>char *\<close> and \<^verbatim>\<open>uint32_t\<close> are both 32 bits wide,
  \<^verbatim>\<open>sizeof(uint32_t)\<close> is 4, and the machine computes \<^verbatim>\<open>pointer - size\<close> modulo \<open>2 ^ 32\<close>.
  Memory is a flat array of bytes indexed by address; a \<^verbatim>\<open>uint32_t\<close> access reads or
  writes four consecutive bytes, least significant first.
\<close>

type_synonym addr = "32 word"
type_synonym byte = "8 word"
type_synonym memory = "addr \<Rightarrow> byte"

definition NULL :: addr where
  "NULL = 0"

definition store32 :: "memory \<Rightarrow> addr \<Rightarrow> 32 word \<Rightarrow> memory" where
  "store32 m a v =
     m(a := ucast v,
       a + 1 := ucast (drop_bit 8 v),
       a + 2 := ucast (drop_bit 16 v),
       a + 3 := ucast (drop_bit 24 v))"

definition load32 :: "memory \<Rightarrow> addr \<Rightarrow> 32 word" where
  "load32 m a =
     ucast (m a) OR push_bit 8 (ucast (m (a + 1))) OR
     push_bit 16 (ucast (m (a + 2))) OR push_bit 24 (ucast (m (a + 3)))"

text \<open>\<^verbatim>\<open>memset(dst, c, n)\<close>: the bytes \<open>dst\<close>, \<open>dst + 1\<close>, ... are written in turn.\<close>

primrec memset :: "memory \<Rightarrow> addr \<Rightarrow> byte \<Rightarrow> nat \<Rightarrow> memory" where
  "memset m dst c 0 = m"
| "memset m dst c (Suc n) = memset (m(dst := c)) (dst + 1) c n"

section \<open>The allocator state\<close>

text \<open>
  The file-scope variable \<^verbatim>\<open>pointer\<close> and the memory it points into. The address of the
  linker symbol \<^verbatim>\<open>_fs_cache\<close> (the top of the region, the spec's base) and the value of
  the macro \<^verbatim>\<open>FB_PIXELS()\<close> of \<^verbatim>\<open>framebuffer.h\<close>, a header that is not among the sources
  (the spec's floor, the top of the live frame buffer), are parameters \<open>fs_cache\<close> and
  \<open>fb_pixels\<close> of the operations that use them.
\<close>

record fb_state =
  pointer :: addr
  mem :: memory

text \<open>\<^verbatim>\<open>nlr_raise(mp_obj_new_exception_msg(&mp_type_MemoryError, ...))\<close> does not return.\<close>

datatype error = MemoryError string

definition fb_alloc_fail :: error where
  "fb_alloc_fail = MemoryError ''FB Alloc Collision!!!''"

definition fb_alloc_init0 :: "addr \<Rightarrow> fb_state \<Rightarrow> fb_state" where
  "fb_alloc_init0 fs_cache s = s\<lparr>pointer := fs_cache\<rparr>"

text \<open>\<^verbatim>\<open>size=((size+sizeof(uint32_t)-1)/sizeof(uint32_t))*sizeof(uint32_t)\<close>, on \<^verbatim>\<open>uint32_t\<close>.\<close>

definition round_up :: "32 word \<Rightarrow> 32 word" where
  "round_up size' = ((size' + 4 - 1) div 4) * 4"

text \<open>
  An operation returns what the C function returns, or the exception it raises, and the
  state it leaves behind.
\<close>

definition fb_alloc :: "addr \<Rightarrow> 32 word \<Rightarrow> fb_state \<Rightarrow> (error + addr) \<times> fb_state" where
  "fb_alloc fb_pixels size' s =
     (if size' = 0 then (Inr NULL, s)
      else
        let rounded = round_up size';
            result = pointer s - rounded;
            new_pointer = result - 4
        in if new_pointer < fb_pixels then (Inl fb_alloc_fail, s)
           else (Inr result,
                 s\<lparr>mem := store32 (mem s) new_pointer (rounded + 4),
                   pointer := new_pointer\<rparr>))"

text \<open>
  \<^verbatim>\<open>fb_alloc0\<close> passes its own, unrounded \<^verbatim>\<open>size\<close> to \<^verbatim>\<open>memset\<close>; when
  \<^verbatim>\<open>fb_alloc\<close> raises, the \<^verbatim>\<open>memset\<close> is never reached.
\<close>

definition fb_alloc0 :: "addr \<Rightarrow> 32 word \<Rightarrow> fb_state \<Rightarrow> (error + addr) \<times> fb_state" where
  "fb_alloc0 fb_pixels size' s =
     (case fb_alloc fb_pixels size' s of
        (Inl e, s') \<Rightarrow> (Inl e, s')
      | (Inr p, s') \<Rightarrow> (Inr p, s'\<lparr>mem := memset (mem s') p 0 (unat size')\<rparr>))"

definition fb_free :: "addr \<Rightarrow> fb_state \<Rightarrow> fb_state" where
  "fb_free fs_cache s =
     (if pointer s < fs_cache
      then s\<lparr>pointer := pointer s + load32 (mem s) (pointer s)\<rparr>
      else s)"

section \<open>Sequences of calls\<close>

text \<open>
  A client calls the four functions one after the other. A raised exception ends the
  sequence; otherwise the next call runs in the state the previous one left.
\<close>

datatype call = Init0 | Alloc "32 word" | Alloc0 "32 word" | Free

fun exec_call :: "addr \<Rightarrow> addr \<Rightarrow> call \<Rightarrow> fb_state \<Rightarrow> error + fb_state" where
  "exec_call fs_cache fb_pixels Init0 s = Inr (fb_alloc_init0 fs_cache s)"
| "exec_call fs_cache fb_pixels (Alloc n) s =
     (case fb_alloc fb_pixels n s of (Inl e, _) \<Rightarrow> Inl e | (Inr _, s') \<Rightarrow> Inr s')"
| "exec_call fs_cache fb_pixels (Alloc0 n) s =
     (case fb_alloc0 fb_pixels n s of (Inl e, _) \<Rightarrow> Inl e | (Inr _, s') \<Rightarrow> Inr s')"
| "exec_call fs_cache fb_pixels Free s = Inr (fb_free fs_cache s)"

fun exec_calls :: "addr \<Rightarrow> addr \<Rightarrow> call list \<Rightarrow> fb_state \<Rightarrow> error + fb_state" where
  "exec_calls fs_cache fb_pixels [] s = Inr s"
| "exec_calls fs_cache fb_pixels (c # cs) s =
     (case exec_call fs_cache fb_pixels c s of
        Inl e \<Rightarrow> Inl e
      | Inr s' \<Rightarrow> exec_calls fs_cache fb_pixels cs s')"

definition pointer_after :: "addr \<Rightarrow> addr \<Rightarrow> call list \<Rightarrow> fb_state \<Rightarrow> error + addr" where
  "pointer_after fs_cache fb_pixels cs s =
     map_sum id pointer (exec_calls fs_cache fb_pixels cs s)"

section \<open>Marks\<close>

text \<open>
  Modelled from the spec: the mark stack. \<^verbatim>\<open>fb_alloc.c\<close> has no mark functions; only calls
  of \<^verbatim>\<open>fb_alloc_mark\<close> and \<^verbatim>\<open>fb_alloc_free_till_mark\<close> are in the sources. The spec keeps
  the marks in a structure of their own, outside the region.
\<close>

record arena =
  core :: fb_state
  marks :: "addr list"

text \<open>
  Modelled from the spec: \<^verbatim>\<open>mark()\<close> (\<^verbatim>\<open>fb_alloc_mark\<close> at the call sites), which
  "pushes the current cursor onto an internal mark stack".
\<close>

definition fb_alloc_mark :: "arena \<Rightarrow> arena" where
  "fb_alloc_mark a = a\<lparr>marks := pointer (core a) # marks a\<rparr>"

text \<open>
  Modelled from the spec: the loop of \<^verbatim>\<open>release_to_mark()\<close>, which "repeatedly pops
  allocations (as in \<^verbatim>\<open>free()\<close>, header-driven) until \<^verbatim>\<open>cursor == m\<close>". The loop has no
  bound; a run that never reaches \<open>m\<close> is \<open>None\<close>.
\<close>

partial_function (option) free_until :: "addr \<Rightarrow> addr \<Rightarrow> fb_state \<Rightarrow> fb_state option" where
  "free_until fs_cache m s =
     (if pointer s = m then Some s else free_until fs_cache m (fb_free fs_cache s))"

text \<open>
  Modelled from the spec: \<^verbatim>\<open>release_to_mark()\<close> (\<^verbatim>\<open>fb_alloc_free_till_mark\<close> at the call
  sites), which "pops the most recent mark value \<open>m\<close>" and runs the loop above; on an
  empty mark stack it is the no-op the spec's error taxonomy asks for.
\<close>

definition fb_alloc_free_till_mark :: "addr \<Rightarrow> arena \<Rightarrow> arena option" where
  "fb_alloc_free_till_mark fs_cache a =
     (case marks a of
        [] \<Rightarrow> Some a
      | m # ms \<Rightarrow> map_option (\<lambda>s. \<lparr>core = s, marks = ms\<rparr>) (free_until fs_cache m (core a)))"

text \<open>\<^verbatim>\<open>fb_alloc\<close> on the region of an arena; the mark stack is not touched.\<close>

definition arena_alloc :: "addr \<Rightarrow> 32 word \<Rightarrow> arena \<Rightarrow> (error + addr) \<times> arena" where
  "arena_alloc fb_pixels size' a =
     (case fb_alloc fb_pixels size' (core a) of (r, s') \<Rightarrow> (r, a\<lparr>core := s'\<rparr>))"

text \<open>
  The call-site pattern \<^verbatim>\<open>mark(); allocate(x); allocate(y); release_to_mark();\<close>. The
  result is the exception of an allocation, or what the release returns, if it returns.
\<close>

definition mark_alloc_alloc_release ::
    "addr \<Rightarrow> addr \<Rightarrow> 32 word \<Rightarrow> 32 word \<Rightarrow> arena \<Rightarrow> error + arena option" where
  "mark_alloc_alloc_release fs_cache fb_pixels x y a =
     (case arena_alloc fb_pixels x (fb_alloc_mark a) of
        (Inl e, _) \<Rightarrow> Inl e
      | (Inr _, a1) \<Rightarrow>
          (case arena_alloc fb_pixels y a1 of
             (Inl e, _) \<Rightarrow> Inl e
           | (Inr _, a2) \<Rightarrow> Inr (fb_alloc_free_till_mark fs_cache a2)))"

section \<open>The stack of blocks\<close>

text \<open>
  What \<^verbatim>\<open>fb_free\<close> relies on: from \<open>p\<close> up to \<^verbatim>\<open>&_fs_cache\<close> the memory holds a chain of
  blocks, each starting with a header word that holds the size of the block, header
  included; \<open>hs\<close> lists the headers from the top of the stack down.
\<close>

fun blocks :: "addr \<Rightarrow> memory \<Rightarrow> addr \<Rightarrow> 32 word list \<Rightarrow> bool" where
  "blocks fs_cache m p [] = (p = fs_cache)"
| "blocks fs_cache m p (h # hs) =
     (load32 m p = h \<and> 4 \<le> unat h \<and> 4 dvd unat h \<and> unat p + unat h \<le> unat fs_cache \<and>
      blocks fs_cache m (p + h) hs)"

text \<open>The state of a region in use: \<^verbatim>\<open>pointer\<close> is not below the floor and heads a chain.\<close>

definition heap_ok :: "addr \<Rightarrow> addr \<Rightarrow> fb_state \<Rightarrow> bool" where
  "heap_ok fs_cache fb_pixels s =
     (fb_pixels \<le> pointer s \<and> (\<exists>hs. blocks fs_cache (mem s) (pointer s) hs))"

text \<open>
  A request is small when its rounded size and header, counted in the naturals, do not
  exceed the address of the floor. No address computed for a small request wraps around.
  With the floor in SRAM at \<^verbatim>\<open>0x20004000\<close> or above, every request of up to 512 MB is
  small; with the floor at 1000 and \<^verbatim>\<open>&_fs_cache\<close> at 2000, every request that could fit
  is.
\<close>

fun small_request :: "addr \<Rightarrow> call \<Rightarrow> bool" where
  "small_request fb_pixels (Alloc n) = (4 * ((unat n + 3) div 4) + 4 \<le> unat fb_pixels)"
| "small_request fb_pixels (Alloc0 n) = (4 * ((unat n + 3) div 4) + 4 \<le> unat fb_pixels)"
| "small_request fb_pixels c = True"

section \<open>The bytes a call stores\<close>




section \<open>Facts about memory and rounding\<close>

lemma load32_store32: "load32 (store32 m a v) a = v"
proof (rule bit_word_eqI)
  fix n assume n: "n < LENGTH(32)"
  have byte_of_n: "n < 8 \<or> (8 \<le> n \<and> n < 16) \<or> (16 \<le> n \<and> n < 24) \<or> (24 \<le> n \<and> n < 32)"
    using n by auto
  show "bit (load32 (store32 m a v) a) n = bit v n"
    using byte_of_n unfolding load32_def store32_def
    by (auto simp add: bit_simps)
qed

text \<open>The closed form of \<^verbatim>\<open>memset\<close>: the \<open>n\<close> addresses from \<open>dst\<close> on, modulo \<open>2 ^ 32\<close>.\<close>

lemma memset_apply: "memset m dst c n a = (if unat (a - dst) < n then c else m a)"
proof (induction n arbitrary: m dst)
  case 0
  show ?case by simp
next
  case (Suc n)
  have step: "memset m dst c (Suc n) a =
      (if unat (a - (dst + 1)) < n then c else (m(dst := c)) a)"
    by (simp add: Suc)
  show ?case
  proof (cases "a = dst")
    case True
    then show ?thesis unfolding step by simp
  next
    case False
    then have nz: "a - dst \<noteq> 0" by simp
    then have pos: "unat (a - dst) \<noteq> 0" by (simp add: unat_eq_0)
    have e: "a - (dst + 1) = (a - dst) - 1" by simp
    have "unat (a - (dst + 1)) = unat (a - dst) - 1"
      unfolding e by (rule unat_minus_one [OF nz])
    then show ?thesis unfolding step using False pos by auto
  qed
qed

text \<open>Below \<open>2 ^ 32 - 3\<close> the rounding does not overflow and is the rounding of the naturals.\<close>

lemma unat_round_up:
  assumes "unat size' + 3 < 2 ^ 32"
  shows "unat (round_up size') = 4 * ((unat size' + 3) div 4)"
proof -
  have a: "unat (size' + 3) = unat size' + 3"
    using assms by (simp add: unat_add_lem [THEN iffD1])
  have b: "unat ((size' + 3) div 4) = (unat size' + 3) div 4"
    by (simp add: unat_div a)
  have "unat ((size' + 3) div 4) * unat (4 :: 32 word) < 2 ^ LENGTH(32)"
    using assms unfolding b by simp
  then have "unat ((size' + 3) div 4 * 4) = unat ((size' + 3) div 4) * unat (4 :: 32 word)"
    by (simp only: unat_mult_lem [THEN iffD1])
  then have c: "unat ((size' + 3) div 4 * 4) = 4 * ((unat size' + 3) div 4)"
    unfolding b by simp
  have "round_up size' = (size' + 3) div 4 * 4"
    by (simp add: round_up_def add.commute)
  then show ?thesis
    by (simp only: c)
qed

text \<open>
  A request fits when the rounded size and the header, counted in the naturals, lie
  between \<^verbatim>\<open>FB_PIXELS()\<close> and \<^verbatim>\<open>pointer\<close>. Then no step of \<^verbatim>\<open>fb_alloc\<close> wraps around.
\<close>

lemma fits_facts:
  assumes fits: "unat fb_pixels + (4 * ((unat size' + 3) div 4) + 4) \<le> unat (p :: addr)"
  shows "unat (round_up size') = 4 * ((unat size' + 3) div 4)"
    and "unat (p - round_up size') = unat p - 4 * ((unat size' + 3) div 4)"
    and "unat (p - round_up size' - 4) = unat p - (4 * ((unat size' + 3) div 4) + 4)"
    and "\<not> p - round_up size' - 4 < fb_pixels"
    and "unat (round_up size' + 4) = 4 * ((unat size' + 3) div 4) + 4"
proof -
  have p: "unat p < 2 ^ 32" using unsigned_less [of p] by simp
  have "unat size' + 3 < 2 ^ 32" using fits p by linarith
  then show r: "unat (round_up size') = 4 * ((unat size' + 3) div 4)"
    by (rule unat_round_up)
  have le: "round_up size' \<le> p"
    using fits r by (simp add: word_le_nat_alt)
  show s1: "unat (p - round_up size') = unat p - 4 * ((unat size' + 3) div 4)"
    using unat_sub [OF le] r by simp
  have le4: "4 \<le> p - round_up size'"
    using fits s1 by (simp add: word_le_nat_alt)
  show s2: "unat (p - round_up size' - 4) = unat p - (4 * ((unat size' + 3) div 4) + 4)"
    using unat_sub [OF le4] s1 by simp
  show "\<not> p - round_up size' - 4 < fb_pixels"
    using fits s2 by (simp add: word_less_nat_alt)
  have "unat (round_up size') + unat (4 :: 32 word) < 2 ^ LENGTH(32)"
    using fits p r by simp
  then have "unat (round_up size' + 4) = unat (round_up size') + unat (4 :: 32 word)"
    by (simp only: unat_add_lem [THEN iffD1])
  then show "unat (round_up size' + 4) = 4 * ((unat size' + 3) div 4) + 4"
    using r by simp
qed

text \<open>A loop that returns has moved: where \<^verbatim>\<open>fb_free\<close> changes nothing, it runs forever.\<close>

lemma free_until_Some_moves:
  assumes "free_until fs_cache m s = Some y"
  shows "pointer s \<noteq> m \<longrightarrow> fb_free fs_cache s \<noteq> s"
proof (rule free_until.raw_induct
    [where P = "\<lambda>fs m s y. pointer s \<noteq> m \<longrightarrow> fb_free fs s \<noteq> s", OF _ assms])
  fix f fs' m' s' y'
  assume IH: "\<And>a b c y. f a b c = Some y \<Longrightarrow> pointer c \<noteq> b \<longrightarrow> fb_free a c \<noteq> c"
    and eq: "(if pointer s' = m' then Some s' else f fs' m' (fb_free fs' s')) = Some y'"
  show "pointer s' \<noteq> m' \<longrightarrow> fb_free fs' s' \<noteq> s'"
  proof (intro impI notI)
    assume ne: "pointer s' \<noteq> m'" and stuck: "fb_free fs' s' = s'"
    from eq ne stuck have "f fs' m' s' = Some y'" by simp
    from IH [OF this] ne stuck show False by simp
  qed
qed

lemma free_until_stuck:
  assumes "pointer s \<noteq> m" and "fb_free fs_cache s = s"
  shows "free_until fs_cache m s = None"
  using free_until_Some_moves [of fs_cache m s] assms
  by (cases "free_until fs_cache m s") auto

text \<open>The unfolding used to run the functions on numerals.\<close>

lemmas fb_eval =
  pointer_after_def fb_alloc_def fb_alloc0_def fb_free_def fb_alloc_init0_def
  round_up_def Let_def load32_def store32_def memset_apply

section \<open>Chains of blocks\<close>

text \<open>
  A chain ends at \<^verbatim>\<open>&_fs_cache\<close>, and it depends only on the memory from its first header
  on: writes below it, and writes into a payload, leave it alone.
\<close>

lemma blocks_le: "blocks fs_cache m p hs \<Longrightarrow> p \<le> fs_cache"
  by (cases hs) (auto simp add: word_le_nat_alt)

lemma load32_cong:
  assumes "m' a = m a" "m' (a + 1) = m (a + 1)" "m' (a + 2) = m (a + 2)" "m' (a + 3) = m (a + 3)"
  shows "load32 m' a = load32 m a"
  using assms by (simp add: load32_def)

lemma unat_add_small:
  fixes p :: addr
  assumes "unat p + k < 2 ^ 32"
  shows "unat (p + of_nat k) = unat p + k"
proof -
  have "unat (of_nat k :: addr) = k"
    using assms by (simp add: unat_of_nat)
  then show ?thesis
    using assms by (simp add: unat_add_lem [THEN iffD1])
qed

text \<open>The header at \<open>p\<close> lies in \<open>p\<close> .. \<open>p + 3\<close>; there is no wrap-around when it ends below \<open>q\<close>.\<close>

lemma load32_above:
  fixes p q :: addr
  assumes same: "\<And>a. p \<le> a \<Longrightarrow> m' a = m a" and room: "unat p + 4 \<le> unat q"
  shows "load32 m' p = load32 m p"
proof -
  have q: "unat q < 2 ^ 32" using unsigned_less [of q] by simp
  have "unat (p + of_nat k) = unat p + k" if "k < 4" for k
    using unat_add_small [of p k] room q that by simp
  from this [of 1] this [of 2] this [of 3]
  have "p \<le> p + 1" "p \<le> p + 2" "p \<le> p + 3"
    by (simp_all add: word_le_nat_alt)
  then show ?thesis
    using same by (intro load32_cong) auto
qed

lemma blocks_mem_above:
  assumes "blocks fs_cache m p hs" and "\<And>a. p \<le> a \<Longrightarrow> m' a = m a"
  shows "blocks fs_cache m' p hs"
  using assms
proof (induction hs arbitrary: p)
  case Nil
  then show ?case by simp
next
  case (Cons h hs)
  from Cons.prems(1) have h: "load32 m p = h" "4 \<le> unat h" "unat p + unat h \<le> unat fs_cache"
    and al: "4 dvd unat h"
    and rest: "blocks fs_cache m (p + h) hs" by simp_all
  have fs: "unat fs_cache < 2 ^ 32" using unsigned_less [of fs_cache] by simp
  have ph: "unat (p + h) = unat p + unat h"
    using h(3) fs by (simp add: unat_add_lem [THEN iffD1])
  have l: "load32 m' p = load32 m p"
    using Cons.prems(2) h(2,3) by (intro load32_above [where q = fs_cache]) auto
  have "blocks fs_cache m' (p + h) hs"
  proof (rule Cons.IH [OF rest])
    fix a assume "p + h \<le> a"
    then have "p \<le> a" using ph by (simp add: word_le_nat_alt)
    then show "m' a = m a" by (rule Cons.prems(2))
  qed
  then show ?case using h l al by simp
qed

lemma store32_other:
  fixes a b :: addr
  assumes "unat a < unat b \<or> unat b + 4 \<le> unat a" and "unat b + 4 \<le> 2 ^ 32"
  shows "store32 m b v a = m a"
proof -
  have "unat (b + of_nat k) = unat b + k" if "k < 4" for k
    using unat_add_small [of b k] assms(2) that by simp
  from this [of 1] this [of 2] this [of 3]
  have "unat (b + 1) = unat b + 1" "unat (b + 2) = unat b + 2" "unat (b + 3) = unat b + 3"
    by simp_all
  with assms(1) have "a \<noteq> b" "a \<noteq> b + 1" "a \<noteq> b + 2" "a \<noteq> b + 3"
    by auto
  then show ?thesis by (simp add: store32_def)
qed

lemma memset_other:
  fixes a dst :: addr
  assumes "unat a < unat dst \<or> unat dst + n \<le> unat a" and "unat dst + n \<le> 2 ^ 32"
  shows "memset m dst c n a = m a"
proof -
  have a: "unat a < 2 ^ 32" using unsigned_less [of a] by simp
  have "\<not> unat (a - dst) < n"
  proof (cases "dst \<le> a")
    case True
    then have "unat (a - dst) = unat a - unat dst" by (rule unat_sub)
    moreover from True have "unat dst \<le> unat a" by (simp add: word_le_nat_alt)
    ultimately show ?thesis using assms(1) by auto
  next
    case False
    then have lt: "unat a < unat dst" by (simp add: word_le_nat_alt)
    have "unat (a - dst) = 2 ^ 32 + unat a - unat dst"
      using lt a by (simp add: unat_sub_if_size word_size word_le_nat_alt)
    then show ?thesis using assms(2) lt by simp
  qed
  then show ?thesis by (simp add: memset_apply)
qed

section \<open>Pushing and popping a block\<close>

text \<open>
  A request that fits pushes one block, with or without zeroing; \<^verbatim>\<open>fb_free\<close> pops the
  block on top.
\<close>

lemma fb_alloc_push:
  assumes inv: "blocks fs_cache (mem s) (pointer s) hs"
    and nz: "size' \<noteq> 0"
    and fits: "unat fb_pixels + (4 * ((unat size' + 3) div 4) + 4) \<le> unat (pointer s)"
  shows "blocks fs_cache (mem (snd (fb_alloc fb_pixels size' s)))
           (pointer (snd (fb_alloc fb_pixels size' s))) ((round_up size' + 4) # hs)"
    and "fb_pixels \<le> pointer (snd (fb_alloc fb_pixels size' s))"
proof -
  let ?p = "pointer s" and ?r = "round_up size'"
  let ?new = "?p - ?r - 4"
  note f = fits_facts [OF fits]
  have run: "snd (fb_alloc fb_pixels size' s) =
      s\<lparr>mem := store32 (mem s) ?new (?r + 4), pointer := ?new\<rparr>"
    using nz f(4) by (simp add: fb_alloc_def Let_def)
  have p: "unat ?p < 2 ^ 32" using unsigned_less [of ?p] by simp
  have p_le: "unat ?p \<le> unat fs_cache"
    using blocks_le [OF inv] by (simp add: word_le_nat_alt)
  have readd: "?new + (?r + 4) = ?p" by simp
  have room: "unat ?new + 4 \<le> unat ?p" using f(3) fits by linarith
  have above: "blocks fs_cache (store32 (mem s) ?new (?r + 4)) ?p hs"
  proof (rule blocks_mem_above [OF inv])
    fix a assume "?p \<le> a"
    then have "unat ?new + 4 \<le> unat a" using room by (simp add: word_le_nat_alt)
    then show "store32 (mem s) ?new (?r + 4) a = mem s a"
      using room p by (intro store32_other) auto
  qed
  have "4 dvd unat (?r + 4)" unfolding f(5) by simp
  moreover have "4 \<le> unat (?r + 4)" unfolding f(5) by simp
  moreover have "unat ?new + unat (?r + 4) \<le> unat fs_cache"
    unfolding f(3) f(5) using fits p_le by linarith
  ultimately show "blocks fs_cache (mem (snd (fb_alloc fb_pixels size' s)))
      (pointer (snd (fb_alloc fb_pixels size' s))) ((round_up size' + 4) # hs)"
    unfolding run using above readd by (simp add: load32_store32)
  show "fb_pixels \<le> pointer (snd (fb_alloc fb_pixels size' s))"
    unfolding run using f(4) by simp
qed

lemma fb_free_pop:
  assumes "blocks fs_cache (mem s) (pointer s) (h # hs)"
  shows "fb_free fs_cache s = s\<lparr>pointer := pointer s + h\<rparr>"
    and "blocks fs_cache (mem s) (pointer s + h) hs"
    and "unat (pointer s + h) = unat (pointer s) + unat h"
proof -
  have fs: "unat fs_cache < 2 ^ 32" using unsigned_less [of fs_cache] by simp
  from assms have lt: "pointer s < fs_cache" by (simp add: word_less_nat_alt)
  with assms show "fb_free fs_cache s = s\<lparr>pointer := pointer s + h\<rparr>"
    by (simp add: fb_free_def)
  from assms show "blocks fs_cache (mem s) (pointer s + h) hs" by simp
  from assms have "unat (pointer s) + unat h \<le> unat fs_cache" by simp
  then show "unat (pointer s + h) = unat (pointer s) + unat h"
    using fs by (simp add: unat_add_lem [THEN iffD1])
qed

lemma fb_alloc0_push:
  assumes inv: "blocks fs_cache (mem s) (pointer s) hs"
    and nz: "size' \<noteq> 0"
    and fits: "unat fb_pixels + (4 * ((unat size' + 3) div 4) + 4) \<le> unat (pointer s)"
  shows "blocks fs_cache (mem (snd (fb_alloc0 fb_pixels size' s)))
           (pointer (snd (fb_alloc0 fb_pixels size' s))) ((round_up size' + 4) # hs)"
    and "fb_pixels \<le> pointer (snd (fb_alloc0 fb_pixels size' s))"
    and "fst (fb_alloc0 fb_pixels size' s) = fst (fb_alloc fb_pixels size' s)"
    and "pointer (snd (fb_alloc0 fb_pixels size' s)) = pointer (snd (fb_alloc fb_pixels size' s))"
proof -
  let ?p = "pointer s" and ?r = "round_up size'"
  let ?new = "?p - ?r - 4" and ?res = "?p - ?r"
  let ?s1 = "snd (fb_alloc fb_pixels size' s)"
  note f = fits_facts [OF fits]
  have run: "fb_alloc fb_pixels size' s =
      (Inr ?res, s\<lparr>mem := store32 (mem s) ?new (?r + 4), pointer := ?new\<rparr>)"
    using nz f(4) by (simp add: fb_alloc_def Let_def)
  have run0: "fb_alloc0 fb_pixels size' s =
      (Inr ?res, ?s1\<lparr>mem := memset (mem ?s1) ?res 0 (unat size')\<rparr>)"
    unfolding fb_alloc0_def run by simp
  have p: "unat ?p < 2 ^ 32" using unsigned_less [of ?p] by simp
  have sz: "unat size' \<le> unat ?r" unfolding f(1) by presburger
  have end_le: "unat ?res + unat size' \<le> unat ?p" using sz f(1,2) fits by linarith
  have new_res: "unat ?new + 4 = unat ?res" using f(2,3) fits by linarith
  have keep: "memset (mem ?s1) ?res 0 (unat size') a = mem ?s1 a"
    if "unat a < unat ?res \<or> unat ?p \<le> unat a" for a
    using that end_le p by (intro memset_other) auto
  note push = fb_alloc_push [OF inv nz fits]
  have ptr: "pointer ?s1 = ?new" unfolding run by simp
  have "blocks fs_cache (memset (mem ?s1) ?res 0 (unat size')) ?new ((?r + 4) # hs)"
  proof -
    from push(1) have hd: "load32 (mem ?s1) ?new = ?r + 4"
      and rest: "blocks fs_cache (mem ?s1) (?new + (?r + 4)) hs"
      and bounds: "4 \<le> unat (?r + 4)" "4 dvd unat (?r + 4)"
        "unat ?new + unat (?r + 4) \<le> unat fs_cache"
      unfolding ptr by simp_all
    have readd: "?new + (?r + 4) = ?p" by simp
    have "unat (?new + of_nat k) = unat ?new + k" if "k < 4" for k
      using unat_add_small [of ?new k] new_res p that f(2) by simp
    from this [of 0] this [of 1] this [of 2] this [of 3]
    have "unat ?new < unat ?res" "unat (?new + 1) < unat ?res"
      "unat (?new + 2) < unat ?res" "unat (?new + 3) < unat ?res"
      using new_res by simp_all
    then have "load32 (memset (mem ?s1) ?res 0 (unat size')) ?new = load32 (mem ?s1) ?new"
      by (intro load32_cong keep) auto
    moreover have "blocks fs_cache (memset (mem ?s1) ?res 0 (unat size')) ?p hs"
    proof (rule blocks_mem_above)
      show "blocks fs_cache (mem ?s1) ?p hs" using rest unfolding readd .
      fix a assume "?p \<le> a"
      then show "memset (mem ?s1) ?res 0 (unat size') a = mem ?s1 a"
        by (intro keep) (simp add: word_le_nat_alt)
    qed
    ultimately show ?thesis using hd bounds unfolding readd by simp
  qed
  then show "blocks fs_cache (mem (snd (fb_alloc0 fb_pixels size' s)))
      (pointer (snd (fb_alloc0 fb_pixels size' s))) ((round_up size' + 4) # hs)"
    unfolding run0 by (simp add: ptr)
  show "fb_pixels \<le> pointer (snd (fb_alloc0 fb_pixels size' s))"
    unfolding run0 using push(2) by simp
  show "fst (fb_alloc0 fb_pixels size' s) = fst (fb_alloc fb_pixels size' s)"
    unfolding run0 run by simp
  show "pointer (snd (fb_alloc0 fb_pixels size' s)) = pointer (snd (fb_alloc fb_pixels size' s))"
    unfolding run0 by simp
qed


section \<open>Small requests keep the region in order\<close>

lemma blocks_aligned:
  "blocks fs_cache m p hs \<Longrightarrow> 4 dvd unat fs_cache \<Longrightarrow> 4 dvd unat p"
proof (induction hs arbitrary: p)
  case Nil
  then show ?case by simp
next
  case (Cons h hs)
  have fs: "unat fs_cache < 2 ^ 32" using unsigned_less [of fs_cache] by simp
  from Cons.prems have "unat (p + h) = unat p + unat h"
    using fs by (simp add: unat_add_lem [THEN iffD1])
  moreover from Cons have "4 dvd unat (p + h)" by simp
  moreover from Cons.prems have "4 dvd unat h" by simp
  ultimately show ?case by (simp add: dvd_add_left_iff)
qed

text \<open>When the request is small and the check passes, the request fits.\<close>

lemma small_request_fits:
  assumes small: "4 * ((unat size' + 3) div 4) + 4 \<le> unat fb_pixels"
    and above: "fb_pixels \<le> p"
    and pass: "\<not> p - round_up size' - 4 < fb_pixels"
  shows "unat fb_pixels + (4 * ((unat size' + 3) div 4) + 4) \<le> unat p"
proof -
  from small above have "unat (0 :: addr) + (4 * ((unat size' + 3) div 4) + 4) \<le> unat p"
    by (simp add: word_le_nat_alt)
  from fits_facts(3) [OF this]
  have "unat (p - round_up size' - 4) = unat p - (4 * ((unat size' + 3) div 4) + 4)" .
  moreover from pass have "unat fb_pixels \<le> unat (p - round_up size' - 4)"
    by (simp add: word_less_nat_alt)
  moreover from small above have "4 * ((unat size' + 3) div 4) + 4 \<le> unat p"
    by (simp add: word_le_nat_alt)
  ultimately show ?thesis by linarith
qed

lemma fb_alloc_cases:
  obtains (zero) "size' = 0" "fb_alloc fb_pixels size' s = (Inr NULL, s)"
  | (collision) "size' \<noteq> 0" "pointer s - round_up size' - 4 < fb_pixels"
      "fb_alloc fb_pixels size' s = (Inl fb_alloc_fail, s)"
  | (success) "size' \<noteq> 0" "\<not> pointer s - round_up size' - 4 < fb_pixels"
      "fst (fb_alloc fb_pixels size' s) = Inr (pointer s - round_up size')"
  by (cases "size' = 0"; cases "pointer s - round_up size' - 4 < fb_pixels")
     (auto simp add: fb_alloc_def Let_def)

lemma fb_alloc0_cases:
  obtains (zero) "size' = 0" "fb_alloc0 fb_pixels size' s = (Inr NULL, s)"
  | (collision) "size' \<noteq> 0" "pointer s - round_up size' - 4 < fb_pixels"
      "fb_alloc0 fb_pixels size' s = (Inl fb_alloc_fail, s)"
  | (success) "size' \<noteq> 0" "\<not> pointer s - round_up size' - 4 < fb_pixels"
      "fst (fb_alloc0 fb_pixels size' s) = Inr (pointer s - round_up size')"
  by (cases "size' = 0"; cases "pointer s - round_up size' - 4 < fb_pixels")
     (auto simp add: fb_alloc0_def fb_alloc_def Let_def)

text \<open>Every call that returns keeps the region in order, and so does every sequence.\<close>

lemma exec_call_heap_ok:
  assumes le: "fb_pixels \<le> fs_cache"
    and ok: "heap_ok fs_cache fb_pixels s"
    and small: "small_request fb_pixels c"
    and run: "exec_call fs_cache fb_pixels c s = Inr s'"
  shows "heap_ok fs_cache fb_pixels s'"
proof -
  from ok obtain hs where above: "fb_pixels \<le> pointer s"
    and bl: "blocks fs_cache (mem s) (pointer s) hs"
    by (auto simp add: heap_ok_def)
  show ?thesis
  proof (cases c)
    case Init0
    with run have "s' = s\<lparr>pointer := fs_cache\<rparr>" by (simp add: fb_alloc_init0_def)
    moreover have "\<exists>hs. blocks fs_cache (mem s) fs_cache hs"
      by (rule exI [of _ "[]"]) simp
    ultimately show ?thesis using le unfolding heap_ok_def by simp
  next
    case (Alloc n)
    show ?thesis
    proof (cases rule: fb_alloc_cases [of n fb_pixels s])
      case zero
      with run Alloc ok show ?thesis by simp
    next
      case collision
      with run Alloc show ?thesis by simp
    next
      case success
      have fits: "unat fb_pixels + (4 * ((unat n + 3) div 4) + 4) \<le> unat (pointer s)"
        using small Alloc above success(2) by (intro small_request_fits) simp_all
      from run Alloc success have s': "s' = snd (fb_alloc fb_pixels n s)"
        by (simp split: prod.splits sum.splits)
      from fb_alloc_push [OF bl success(1) fits] show ?thesis
        unfolding heap_ok_def s' by blast
    qed
  next
    case (Alloc0 n)
    show ?thesis
    proof (cases rule: fb_alloc0_cases [of n fb_pixels s])
      case zero
      with run Alloc0 ok show ?thesis by simp
    next
      case collision
      with run Alloc0 show ?thesis by simp
    next
      case success
      have fits: "unat fb_pixels + (4 * ((unat n + 3) div 4) + 4) \<le> unat (pointer s)"
        using small Alloc0 above success(2) by (intro small_request_fits) simp_all
      from run Alloc0 success have s': "s' = snd (fb_alloc0 fb_pixels n s)"
        by (simp split: prod.splits sum.splits)
      from fb_alloc0_push(1,2) [OF bl success(1) fits] show ?thesis
        unfolding heap_ok_def s' by blast
    qed
  next
    case Free
    with run have s': "s' = fb_free fs_cache s" by simp
    show ?thesis
    proof (cases hs)
      case Nil
      with bl have "pointer s = fs_cache" by simp
      then have "fb_free fs_cache s = s" by (simp add: fb_free_def)
      with ok s' show ?thesis by simp
    next
      case (Cons h hs')
      note pop = fb_free_pop [OF bl [unfolded Cons]]
      from pop(3) above have "fb_pixels \<le> pointer s + h"
        by (simp add: word_le_nat_alt)
      with pop(1,2) show ?thesis unfolding heap_ok_def s' by auto
    qed
  qed
qed

lemma exec_calls_heap_ok:
  assumes "fb_pixels \<le> fs_cache"
    and "heap_ok fs_cache fb_pixels s"
    and "list_all (small_request fb_pixels) cs"
    and "exec_calls fs_cache fb_pixels cs s = Inr s'"
  shows "heap_ok fs_cache fb_pixels s'"
  using assms(2-)
proof (induction cs arbitrary: s)
  case Nil
  then show ?case by simp
next
  case (Cons c cs)
  from Cons.prems(3) obtain s1 where c: "exec_call fs_cache fb_pixels c s = Inr s1"
    and rest: "exec_calls fs_cache fb_pixels cs s1 = Inr s'"
    by (auto split: sum.splits)
  from Cons.prems(2) have "small_request fb_pixels c" "list_all (small_request fb_pixels) cs"
    by simp_all
  from exec_call_heap_ok [OF assms(1) Cons.prems(1) this(1) c] this(2) rest
  show ?case by (rule Cons.IH)
qed

text \<open>What the region keeps: the bounds, and with an aligned top an aligned \<^verbatim>\<open>pointer\<close>.\<close>

lemma heap_ok_bounds:
  "heap_ok fs_cache fb_pixels s \<Longrightarrow> fb_pixels \<le> pointer s \<and> pointer s \<le> fs_cache"
  by (auto simp add: heap_ok_def dest: blocks_le)

lemma heap_ok_aligned:
  "heap_ok fs_cache fb_pixels s \<Longrightarrow> 4 dvd unat fs_cache \<Longrightarrow> 4 dvd unat (pointer s)"
  by (auto simp add: heap_ok_def dest: blocks_aligned)


text \<open>The pointers handed out for small requests are aligned as well.\<close>

lemma fb_alloc0_fst: "fst (fb_alloc0 fb_pixels size' s) = fst (fb_alloc fb_pixels size' s)"
  by (simp add: fb_alloc0_def split: prod.splits sum.splits)

lemma small_request_result_aligned:
  assumes ok: "heap_ok fs_cache fb_pixels s"
    and al: "4 dvd unat fs_cache"
    and small: "4 * ((unat n + 3) div 4) + 4 \<le> unat fb_pixels"
    and nz: "n \<noteq> 0"
    and ret: "fst (fb_alloc fb_pixels n s) = Inr r"
  shows "4 dvd unat r" and "fst (fb_alloc0 fb_pixels n s) = Inr r"
proof -
  from ok have above: "fb_pixels \<le> pointer s" by (simp add: heap_ok_def)
  show "4 dvd unat r"
  proof (cases rule: fb_alloc_cases [of n fb_pixels s])
    case zero
    with nz show ?thesis by simp
  next
    case collision
    with ret show ?thesis by simp
  next
    case success
    have fits: "unat fb_pixels + (4 * ((unat n + 3) div 4) + 4) \<le> unat (pointer s)"
      using small above success(2) by (rule small_request_fits)
    from success(3) ret have "r = pointer s - round_up n" by simp
    with fits_facts(2) [OF fits]
    have "unat r = unat (pointer s) - 4 * ((unat n + 3) div 4)" by simp
    moreover have "4 dvd unat (pointer s)" using ok al by (rule heap_ok_aligned)
    ultimately show ?thesis using fits by (simp add: dvd_diff_nat)
  qed
  show "fst (fb_alloc0 fb_pixels n s) = Inr r"
    using ret by (simp add: fb_alloc0_fst)
qed

section \<open>Stack discipline for small requests\<close>

lemma blocks_sum:
  "blocks fs_cache m p hs \<Longrightarrow> unat p + sum_list (map unat hs) = unat fs_cache"
proof (induction hs arbitrary: p)
  case Nil
  then show ?case by simp
next
  case (Cons h hs)
  have fs: "unat fs_cache < 2 ^ 32" using unsigned_less [of fs_cache] by simp
  from Cons.prems have "unat (p + h) = unat p + unat h"
    using fs by (simp add: unat_add_lem [THEN iffD1])
  moreover from Cons have "unat (p + h) + sum_list (map unat hs) = unat fs_cache" by simp
  ultimately show ?case by simp
qed

lemma blocks_same_start:
  assumes "blocks fs_cache m p hs" and "blocks fs_cache m' q hs"
  shows "p = q"
proof -
  from blocks_sum [OF assms(1)] blocks_sum [OF assms(2)] have "unat p = unat q" by simp
  then show ?thesis by (simp add: word_unat_eq_iff)
qed

lemma blocks_append:
  "blocks fs_cache m p (hs1 @ hs) \<Longrightarrow>
   \<exists>q. blocks fs_cache m q hs \<and> unat q = unat p + sum_list (map unat hs1)"
proof (induction hs1 arbitrary: p)
  case Nil
  then show ?case by auto
next
  case (Cons h hs1)
  have fs: "unat fs_cache < 2 ^ 32" using unsigned_less [of fs_cache] by simp
  from Cons.prems have ph: "unat (p + h) = unat p + unat h"
    using fs by (simp add: unat_add_lem [THEN iffD1])
  from Cons.prems have "blocks fs_cache m (p + h) (hs1 @ hs)" by simp
  from Cons.IH [OF this] ph show ?case by auto
qed

text \<open>An allocation that returns pushes at most one block.\<close>

lemma fb_alloc_returns_push:
  assumes bl: "blocks fs_cache (mem s) (pointer s) hs"
    and above: "fb_pixels \<le> pointer s"
    and small: "4 * ((unat n + 3) div 4) + 4 \<le> unat fb_pixels"
    and ret: "fb_alloc fb_pixels n s = (Inr r, s1)"
  shows "\<exists>hs1. blocks fs_cache (mem s1) (pointer s1) (hs1 @ hs) \<and>
               length hs1 = (if n = 0 then 0 else 1)"
    and "fb_pixels \<le> pointer s1"
proof -
  have "(\<exists>hs1. blocks fs_cache (mem s1) (pointer s1) (hs1 @ hs) \<and>
               length hs1 = (if n = 0 then 0 else 1)) \<and> fb_pixels \<le> pointer s1"
  proof (cases rule: fb_alloc_cases [of n fb_pixels s])
    case zero
    with ret have "s1 = s" by simp
    with bl above zero(1) show ?thesis by auto
  next
    case collision
    with ret show ?thesis by simp
  next
    case success
    have fits: "unat fb_pixels + (4 * ((unat n + 3) div 4) + 4) \<le> unat (pointer s)"
      using small above success(2) by (rule small_request_fits)
    from ret have s1: "s1 = snd (fb_alloc fb_pixels n s)" by simp
    from fb_alloc_push [OF bl success(1) fits] success(1) show ?thesis
      unfolding s1 by (intro conjI exI [of _ "[round_up n + 4]"]) simp_all
  qed
  then show "\<exists>hs1. blocks fs_cache (mem s1) (pointer s1) (hs1 @ hs) \<and>
               length hs1 = (if n = 0 then 0 else 1)"
    and "fb_pixels \<le> pointer s1" by blast+
qed

lemma exec_calls_append:
  "exec_calls fs_cache fb_pixels (cs @ ds) s =
     (case exec_calls fs_cache fb_pixels cs s of
        Inl e \<Rightarrow> Inl e
      | Inr s' \<Rightarrow> exec_calls fs_cache fb_pixels ds s')"
  by (induction cs arbitrary: s) (auto split: sum.splits)

lemma allocs_push:
  assumes "blocks fs_cache (mem s) (pointer s) hs"
    and "fb_pixels \<le> pointer s"
    and "list_all (\<lambda>n. n \<noteq> 0 \<and> 4 * ((unat n + 3) div 4) + 4 \<le> unat fb_pixels) ns"
    and "exec_calls fs_cache fb_pixels (map Alloc ns) s = Inr s1"
  shows "\<exists>hs1. blocks fs_cache (mem s1) (pointer s1) (hs1 @ hs) \<and> length hs1 = length ns"
  using assms
proof (induction ns arbitrary: s hs)
  case Nil
  then show ?case by simp
next
  case (Cons n ns)
  from Cons.prems(4) obtain r s' where a: "fb_alloc fb_pixels n s = (Inr r, s')"
    and rest: "exec_calls fs_cache fb_pixels (map Alloc ns) s' = Inr s1"
    by (auto split: sum.splits prod.splits)
  from Cons.prems(3) have n: "n \<noteq> 0" "4 * ((unat n + 3) div 4) + 4 \<le> unat fb_pixels"
    and ns: "list_all (\<lambda>n. n \<noteq> 0 \<and> 4 * ((unat n + 3) div 4) + 4 \<le> unat fb_pixels) ns"
    by simp_all
  from fb_alloc_returns_push [OF Cons.prems(1,2) n(2) a] n(1)
  obtain h where bl': "blocks fs_cache (mem s') (pointer s') (h # hs)"
    and above': "fb_pixels \<le> pointer s'"
    by (auto simp add: length_Suc_conv)
  from Cons.IH [OF bl' above' ns rest]
  obtain hs1 where "blocks fs_cache (mem s1) (pointer s1) (hs1 @ h # hs)"
    and "length hs1 = length ns" by blast
  then show ?case by (intro exI [of _ "hs1 @ [h]"]) simp
qed

lemma frees_pop:
  "blocks fs_cache (mem s) (pointer s) (hs1 @ hs) \<Longrightarrow>
   \<exists>s'. exec_calls fs_cache fb_pixels (replicate (length hs1) Free) s = Inr s' \<and>
        blocks fs_cache (mem s') (pointer s') hs"
proof (induction hs1 arbitrary: s)
  case Nil
  then show ?case by simp
next
  case (Cons h hs1)
  from Cons.prems have bl: "blocks fs_cache (mem s) (pointer s) (h # (hs1 @ hs))" by simp
  note pop = fb_free_pop [OF bl]
  let ?s = "s\<lparr>pointer := pointer s + h\<rparr>"
  from pop(2) have "blocks fs_cache (mem ?s) (pointer ?s) (hs1 @ hs)" by simp
  from Cons.IH [OF this] pop(1) show ?case by simp
qed

text \<open>As many frees as allocations put \<^verbatim>\<open>pointer\<close> back.\<close>

lemma allocs_then_frees:
  assumes ok: "heap_ok fs_cache fb_pixels s"
    and small: "list_all (\<lambda>n. n \<noteq> 0 \<and> 4 * ((unat n + 3) div 4) + 4 \<le> unat fb_pixels) ns"
    and ret: "exec_calls fs_cache fb_pixels (map Alloc ns) s = Inr s1"
  shows "pointer_after fs_cache fb_pixels (map Alloc ns @ replicate (length ns) Free) s
           = Inr (pointer s)"
proof -
  from ok obtain hs where above: "fb_pixels \<le> pointer s"
    and bl: "blocks fs_cache (mem s) (pointer s) hs"
    by (auto simp add: heap_ok_def)
  from allocs_push [OF bl above small ret]
  obtain hs1 where bl1: "blocks fs_cache (mem s1) (pointer s1) (hs1 @ hs)"
    and len: "length hs1 = length ns" by blast
  from frees_pop [OF bl1, of fb_pixels]
  obtain s2 where fr: "exec_calls fs_cache fb_pixels (replicate (length hs1) Free) s1 = Inr s2"
    and bl2: "blocks fs_cache (mem s2) (pointer s2) hs" by blast
  from blocks_same_start [OF bl2 bl] have "pointer s2 = pointer s" .
  with ret fr len show ?thesis
    by (simp add: pointer_after_def exec_calls_append)
qed


section \<open>Small requests leave the pixels alone\<close>

lemma exec_call_below:
  assumes ok: "heap_ok fs_cache fb_pixels s"
    and small: "small_request fb_pixels c"
    and run: "exec_call fs_cache fb_pixels c s = Inr s'"
    and a: "a < fb_pixels"
  shows "mem s' a = mem s a"
proof -
  from ok have above: "fb_pixels \<le> pointer s" by (simp add: heap_ok_def)
  have p: "unat (pointer s) < 2 ^ 32" using unsigned_less [of "pointer s"] by simp
  have written: "store32 (mem s) (pointer s - round_up n - 4) v a = mem s a"
    and zeroed: "memset m (pointer s - round_up n) 0 (unat n) a = m a"
    if n: "4 * ((unat n + 3) div 4) + 4 \<le> unat fb_pixels"
      and pass: "\<not> pointer s - round_up n - 4 < fb_pixels" for n v m
  proof -
    have fits: "unat fb_pixels + (4 * ((unat n + 3) div 4) + 4) \<le> unat (pointer s)"
      using n above pass by (rule small_request_fits)
    note f = fits_facts [OF fits]
    from a have a': "unat a < unat fb_pixels" by (simp add: word_less_nat_alt)
    show "store32 (mem s) (pointer s - round_up n - 4) v a = mem s a"
      using a' f(3) fits p by (intro store32_other) auto
    have "unat n \<le> 4 * ((unat n + 3) div 4)" by presburger
    then show "memset m (pointer s - round_up n) 0 (unat n) a = m a"
      using a' f(2) fits p by (intro memset_other) auto
  qed
  show ?thesis
  proof (cases c)
    case Init0
    with run show ?thesis by (auto simp add: fb_alloc_init0_def)
  next
    case (Alloc n)
    with run small written [of n] show ?thesis
      by (auto simp add: fb_alloc_def Let_def split: if_splits)
  next
    case (Alloc0 n)
    with run small written [of n] zeroed [of n] show ?thesis
      by (auto simp add: fb_alloc0_def fb_alloc_def Let_def split: if_splits)
  next
    case Free
    with run show ?thesis by (auto simp add: fb_free_def)
  qed
qed

lemma exec_calls_below:
  assumes "fb_pixels \<le> fs_cache"
    and "heap_ok fs_cache fb_pixels s"
    and "list_all (small_request fb_pixels) cs"
    and "exec_calls fs_cache fb_pixels cs s = Inr s'"
    and "a < fb_pixels"
  shows "mem s' a = mem s a"
  using assms(2-4)
proof (induction cs arbitrary: s)
  case Nil
  then show ?case by simp
next
  case (Cons c cs)
  from Cons.prems(3) obtain s1 where c: "exec_call fs_cache fb_pixels c s = Inr s1"
    and rest: "exec_calls fs_cache fb_pixels cs s1 = Inr s'"
    by (auto split: sum.splits)
  from Cons.prems(2) have sm: "small_request fb_pixels c" "list_all (small_request fb_pixels) cs"
    by simp_all
  have "mem s1 a = mem s a"
    using Cons.prems(1) sm(1) c assms(5) by (rule exec_call_below)
  moreover have "mem s' a = mem s1 a"
    using exec_call_heap_ok [OF assms(1) Cons.prems(1) sm(1) c] sm(2) rest by (rule Cons.IH)
  ultimately show ?case by simp
qed

section \<open>Release to a mark after small requests\<close>

text \<open>The release loop stops after the blocks above the mark.\<close>

lemma free_until_pops:
  "blocks fs_cache (mem s) (pointer s) (hs1 @ hs) \<Longrightarrow> blocks fs_cache (mem s) m hs \<Longrightarrow>
   free_until fs_cache m s = Some (s\<lparr>pointer := m\<rparr>)"
proof (induction hs1 arbitrary: s)
  case Nil
  then have "pointer s = m" by (auto intro: blocks_same_start)
  then show ?case by (simp add: free_until.simps)
next
  case (Cons h hs1)
  from Cons.prems(1) have bl: "blocks fs_cache (mem s) (pointer s) (h # (hs1 @ hs))" by simp
  note pop = fb_free_pop [OF bl]
  from blocks_append [OF pop(2)] obtain q
    where q: "blocks fs_cache (mem s) q hs" "unat (pointer s + h) \<le> unat q" by auto
  from blocks_same_start [OF q(1) Cons.prems(2)] have "q = m" .
  moreover from bl have "4 \<le> unat h" by simp
  ultimately have "pointer s \<noteq> m" using q(2) pop(3) by auto
  moreover
  let ?s = "s\<lparr>pointer := pointer s + h\<rparr>"
  from pop(2) Cons.prems(2)
  have "free_until fs_cache m ?s = Some (?s\<lparr>pointer := m\<rparr>)"
    by (intro Cons.IH) simp_all
  ultimately show ?case using pop(1) by (subst free_until.simps) simp
qed

lemma mark_round_trip:
  assumes ok: "heap_ok fs_cache fb_pixels (core a)"
    and x: "4 * ((unat x + 3) div 4) + 4 \<le> unat fb_pixels"
    and y: "4 * ((unat y + 3) div 4) + 4 \<le> unat fb_pixels"
    and rx: "arena_alloc fb_pixels x (fb_alloc_mark a) = (Inr px, a1)"
    and ry: "arena_alloc fb_pixels y a1 = (Inr py, a2)"
  shows "\<exists>a'. mark_alloc_alloc_release fs_cache fb_pixels x y a = Inr (Some a') \<and>
              pointer (core a') = pointer (core a) \<and> marks a' = marks a"
proof -
  from ok obtain hs where above: "fb_pixels \<le> pointer (core a)"
    and bl: "blocks fs_cache (mem (core a)) (pointer (core a)) hs"
    by (auto simp add: heap_ok_def)
  from rx have ax: "fb_alloc fb_pixels x (core a) = (Inr px, core a1)"
    and m1: "marks a1 = pointer (core a) # marks a"
    by (auto simp add: arena_alloc_def fb_alloc_mark_def split: prod.splits)
  from ry have ay: "fb_alloc fb_pixels y (core a1) = (Inr py, core a2)"
    and m2: "marks a2 = marks a1"
    by (auto simp add: arena_alloc_def split: prod.splits)
  from fb_alloc_returns_push [OF bl above x ax]
  obtain hs1 where bl1: "blocks fs_cache (mem (core a1)) (pointer (core a1)) (hs1 @ hs)"
    and above1: "fb_pixels \<le> pointer (core a1)" by blast
  from fb_alloc_returns_push [OF bl1 above1 y ay]
  obtain hs2 where bl2: "blocks fs_cache (mem (core a2)) (pointer (core a2)) ((hs2 @ hs1) @ hs)"
    by auto
  from blocks_append [OF bl2] obtain q where q: "blocks fs_cache (mem (core a2)) q hs" by blast
  from blocks_same_start [OF q bl] have "q = pointer (core a)" .
  with q have "blocks fs_cache (mem (core a2)) (pointer (core a)) hs" by simp
  from free_until_pops [OF bl2 this]
  have "fb_alloc_free_till_mark fs_cache a2 =
      Some \<lparr>core = (core a2)\<lparr>pointer := pointer (core a)\<rparr>, marks = marks a\<rparr>"
    by (simp add: fb_alloc_free_till_mark_def m1 m2)
  then show ?thesis
    using rx ry by (simp add: mark_alloc_alloc_release_def)
qed

section \<open>Zeroing a block\<close>

text \<open>
  Up to a size of \<open>2 ^ 32 - 4\<close>, and in any state, zeroing leaves the header that
  \<^verbatim>\<open>fb_alloc\<close> wrote, and every byte asked for is 0 afterwards.
\<close>

lemma fb_alloc0_same_block:
  assumes "unat size' + 3 < 2 ^ 32"
  shows "fst (fb_alloc0 fb_pixels size' s) = fst (fb_alloc fb_pixels size' s)"
    and "pointer (snd (fb_alloc0 fb_pixels size' s)) = pointer (snd (fb_alloc fb_pixels size' s))"
    and "load32 (mem (snd (fb_alloc0 fb_pixels size' s))) (pointer (snd (fb_alloc0 fb_pixels size' s)))
       = load32 (mem (snd (fb_alloc fb_pixels size' s))) (pointer (snd (fb_alloc fb_pixels size' s)))"
proof -
  let ?res = "pointer s - round_up size'"
  have far: "\<not> unat (?res - 4 + k - ?res) < unat size'" if "k \<in> {0, 1, 2, 3}" for k :: addr
  proof -
    have "?res - 4 + k - ?res = k - 4" by simp
    moreover have "unat (- 1 :: addr) = 4294967295"
      by (simp add: unsigned_minus_1_eq_mask mask_eq_exp_minus_1)
    then have "2 ^ 32 - 4 \<le> unat (k - 4)" using that by auto
    ultimately show ?thesis using assms by simp
  qed
  from far [of 0] far [of 1] far [of 2] far [of 3]
  have hdr: "load32 (memset m ?res 0 (unat size')) (?res - 4) = load32 m (?res - 4)" for m
    by (simp add: load32_def memset_apply)
  show "fst (fb_alloc0 fb_pixels size' s) = fst (fb_alloc fb_pixels size' s)"
    and "pointer (snd (fb_alloc0 fb_pixels size' s)) = pointer (snd (fb_alloc fb_pixels size' s))"
    by (simp_all add: fb_alloc0_def fb_alloc_def Let_def)
  show "load32 (mem (snd (fb_alloc0 fb_pixels size' s))) (pointer (snd (fb_alloc0 fb_pixels size' s)))
       = load32 (mem (snd (fb_alloc fb_pixels size' s))) (pointer (snd (fb_alloc fb_pixels size' s)))"
    using hdr by (simp add: fb_alloc0_def fb_alloc_def Let_def)
qed

lemma fb_alloc0_zeroes:
  assumes "fb_alloc0 fb_pixels size' s = (Inr p, s')" and "i < unat size'"
  shows "mem s' (p + of_nat i) = 0"
proof -
  have "unat size' < 2 ^ 32" using unsigned_less [of size'] by simp
  with assms(2) have "unat (of_nat i :: addr) = i" by (simp add: unat_of_nat)
  with assms show ?thesis
    by (auto simp add: fb_alloc0_def memset_apply split: prod.splits sum.splits)
qed

section \<open>The region under small requests\<close>

lemma heap_ok_init0:
  "fb_pixels \<le> fs_cache \<Longrightarrow> heap_ok fs_cache fb_pixels (fb_alloc_init0 fs_cache s)"
  unfolding heap_ok_def fb_alloc_init0_def
  by (auto intro: exI [of _ "[]"])

text \<open>
  In one statement: after \<^verbatim>\<open>fb_alloc_init0\<close> and any small requests and frees that raise
  nothing, \<^verbatim>\<open>pointer\<close> is between the floor and \<^verbatim>\<open>&_fs_cache\<close>, it is aligned when
  \<^verbatim>\<open>&_fs_cache\<close> is, and the memory below the floor is what it was.
\<close>

lemma small_requests_safe:
  assumes le: "fb_pixels \<le> fs_cache"
    and small: "list_all (small_request fb_pixels) cs"
    and run: "exec_calls fs_cache fb_pixels (Init0 # cs) s = Inr s'"
  shows "fb_pixels \<le> pointer s'" and "pointer s' \<le> fs_cache"
    and "4 dvd unat fs_cache \<Longrightarrow> 4 dvd unat (pointer s')"
    and "a < fb_pixels \<Longrightarrow> mem s' a = mem s a"
proof -
  let ?s0 = "fb_alloc_init0 fs_cache s"
  from run have rest: "exec_calls fs_cache fb_pixels cs ?s0 = Inr s'" by simp
  note ok0 = heap_ok_init0 [OF le, of s]
  from exec_calls_heap_ok [OF le ok0 small rest]
  have ok: "heap_ok fs_cache fb_pixels s'" .
  from heap_ok_bounds [OF ok] show "fb_pixels \<le> pointer s'" and "pointer s' \<le> fs_cache"
    by simp_all
  show "4 dvd unat (pointer s')" if "4 dvd unat fs_cache"
    using ok that by (rule heap_ok_aligned)
  show "mem s' a = mem s a" if "a < fb_pixels"
    using exec_calls_below [OF le ok0 small rest that] by (simp add: fb_alloc_init0_def)
qed

text \<open>
  An instance in the region of 1000 bytes below 2000; the last request fills the region
  to the floor.
\<close>

lemma small_requests_safe_example:
  "\<exists>s'. exec_calls 2000 1000 [Init0, Alloc 10, Alloc0 20, Free, Alloc 980] s = Inr s' \<and>
        1000 \<le> pointer s' \<and> pointer s' \<le> 2000 \<and> 4 dvd unat (pointer s') \<and>
        mem s' 999 = mem s 999"
proof -
  let ?cs = "[Alloc 10, Alloc0 20, Free, Alloc 980]"
  have "pointer_after 2000 1000 (Init0 # ?cs) s = Inr 1000"
    by (simp add: fb_eval)
  then obtain s' where run: "exec_calls 2000 1000 (Init0 # ?cs) s = Inr s'"
    unfolding pointer_after_def by (cases "exec_calls 2000 1000 (Init0 # ?cs) s") auto
  have le: "(1000 :: addr) \<le> 2000" by simp
  have small: "list_all (small_request 1000) ?cs" by simp
  have al: "4 dvd unat (2000 :: addr)" by simp
  have below: "(999 :: addr) < 1000" by simp
  from small_requests_safe [OF le small run] al below run show ?thesis by blast
qed

text \<open>The example region of 1000 bytes below 2000: ten bytes are taken and given back.\<close>

lemma concrete_example:
  "pointer_after 2000 1000 [Init0, Alloc 10] s = Inr 1984 \<and>
   pointer_after 2000 1000 [Init0, Alloc 10, Free] s = Inr 2000"
  by (simp add: fb_eval)

section \<open>Requests of size zero and requests that fit\<close>

text \<open>
  C7. \<^verbatim>\<open>fb_alloc(0)\<close> returns the null pointer, raises nothing, and leaves the pointer
  and the memory as they were.
\<close>

theorem fb_alloc_zero:
  "fb_alloc fb_pixels 0 s = (Inr NULL, s) \<and> NULL = 0"
  by (simp add: fb_alloc_def NULL_def)

text \<open>
  C3. Let \<^verbatim>\<open>size > 0\<close> be a request that does not collide with the floor: the size rounded
  up to a multiple of 4, plus the 4 bytes of the header, lies between \<^verbatim>\<open>FB_PIXELS()\<close> and
  \<^verbatim>\<open>pointer\<close>. Then \<^verbatim>\<open>fb_alloc\<close> rounds the size up to the next multiple of 4 (the
  least multiple of 4 that is not below it), moves \<^verbatim>\<open>pointer\<close> down by the rounded size
  and the header, writes the rounded size plus 4 into the header word at the new
  \<^verbatim>\<open>pointer\<close> and nothing else, and returns the payload pointer, the address 4 bytes
  after the header: the header is the word next to the payload on the side of the top of
  the stack. With \<^verbatim>\<open>pointer\<close> = 2000, \<^verbatim>\<open>FB_PIXELS()\<close> = 1000 and \<^verbatim>\<open>size\<close> = 10 the rounded
  size is 12, \<^verbatim>\<open>pointer\<close> becomes 1984, the header word at 1984 holds 16 and 1988 is
  returned. No step of the computation wraps around for such a request; the requests that
  do not fit and are not caught are the subject of C2.
\<close>

theorem fb_alloc_fits:
  assumes nz: "size' \<noteq> 0"
    and fits: "unat fb_pixels + (4 * ((unat size' + 3) div 4) + 4) \<le> unat (pointer s)"
  shows "unat (round_up size') = 4 * ((unat size' + 3) div 4) \<and>
         4 dvd unat (round_up size') \<and>
         unat size' \<le> unat (round_up size') \<and>
         unat (round_up size') < unat size' + 4 \<and>
         fb_alloc fb_pixels size' s =
           (Inr (pointer s - round_up size'),
            s\<lparr>mem := store32 (mem s) (pointer s - round_up size' - 4) (round_up size' + 4),
              pointer := pointer s - round_up size' - 4\<rparr>) \<and>
         unat (pointer (snd (fb_alloc fb_pixels size' s))) =
           unat (pointer s) - (unat (round_up size') + 4) \<and>
         load32 (mem (snd (fb_alloc fb_pixels size' s)))
           (pointer (snd (fb_alloc fb_pixels size' s))) = round_up size' + 4 \<and>
         unat (round_up size' + 4) = unat (round_up size') + 4 \<and>
         fst (fb_alloc fb_pixels size' s) = Inr (pointer (snd (fb_alloc fb_pixels size' s)) + 4)"
proof -
  note f = fits_facts [OF fits]
  have run: "fb_alloc fb_pixels size' s =
      (Inr (pointer s - round_up size'),
       s\<lparr>mem := store32 (mem s) (pointer s - round_up size' - 4) (round_up size' + 4),
         pointer := pointer s - round_up size' - 4\<rparr>)"
    using nz f(4) by (simp add: fb_alloc_def Let_def)
  have r1: "unat size' \<le> unat (round_up size')" unfolding f(1) by presburger
  have r2: "unat (round_up size') < unat size' + 4" unfolding f(1) by presburger
  show ?thesis
    unfolding run using f(1) f(3) f(5) r1 r2
    by (simp add: load32_store32)
qed

theorem fb_alloc_fits_witness:
  "(10 :: 32 word) \<noteq> 0 \<and>
   unat (1000 :: addr) + (4 * ((unat (10 :: 32 word) + 3) div 4) + 4)
     \<le> unat (pointer \<lparr>pointer = 2000, mem = (\<lambda>_. 0)\<rparr>) \<and>
   unat (round_up 10) = 12 \<and>
   fst (fb_alloc 1000 10 \<lparr>pointer = 2000, mem = (\<lambda>_. 0)\<rparr>) = Inr 1988 \<and>
   pointer (snd (fb_alloc 1000 10 \<lparr>pointer = 2000, mem = (\<lambda>_. 0)\<rparr>)) = 1984 \<and>
   load32 (mem (snd (fb_alloc 1000 10 \<lparr>pointer = 2000, mem = (\<lambda>_. 0)\<rparr>))) 1984 = 16"
proof -
  have nz: "(10 :: 32 word) \<noteq> 0" by simp
  have fits: "unat (1000 :: addr) + (4 * ((unat (10 :: 32 word) + 3) div 4) + 4)
      \<le> unat (pointer \<lparr>pointer = 2000, mem = (\<lambda>_. 0)\<rparr>)" by simp
  have r: "round_up 10 = 12" by (simp add: round_up_def)
  show ?thesis
    using nz fits fb_alloc_fits [OF nz fits] unfolding r by (simp add: load32_store32)
qed

section \<open>The collision check\<close>

text \<open>
  The check comes before the store: a call that raises has changed nothing, and the only
  exception is the collision.
\<close>

lemma fb_alloc_raises_unchanged:
  "fst (fb_alloc fb_pixels size' s) = Inl e \<Longrightarrow>
   snd (fb_alloc fb_pixels size' s) = s \<and> e = fb_alloc_fail"
  by (auto simp add: fb_alloc_def Let_def split: if_splits)

text \<open>
  For a small request the check is exact: the call raises if and only if the rounded size
  and the header do not fit between the floor and \<^verbatim>\<open>pointer\<close>.
\<close>

lemma small_request_collision_iff:
  assumes nz: "size' \<noteq> 0"
    and small: "4 * ((unat size' + 3) div 4) + 4 \<le> unat fb_pixels"
    and above: "fb_pixels \<le> pointer s"
  shows "(fst (fb_alloc fb_pixels size' s) = Inl fb_alloc_fail) =
         (unat (pointer s) < unat fb_pixels + (4 * ((unat size' + 3) div 4) + 4))"
proof -
  from small above
  have room: "unat (0 :: addr) + (4 * ((unat size' + 3) div 4) + 4) \<le> unat (pointer s)"
    by (simp add: word_le_nat_alt)
  from fits_facts(3) [OF room]
  have "unat (pointer s - round_up size' - 4) =
      unat (pointer s) - (4 * ((unat size' + 3) div 4) + 4)" .
  with room have "(pointer s - round_up size' - 4 < fb_pixels) =
      (unat (pointer s) < unat fb_pixels + (4 * ((unat size' + 3) div 4) + 4))"
    by (auto simp add: word_less_nat_alt)
  then show ?thesis
    using nz by (simp add: fb_alloc_def Let_def)
qed

text \<open>
  C2. A request whose candidate pointer, \<^verbatim>\<open>pointer\<close> minus the rounded size minus the
  header, is below the floor is to raise the collision and change nothing. \<^verbatim>\<open>fb_alloc\<close>
  compares the candidate it has computed modulo \<open>2 ^ 32\<close>. With \<^verbatim>\<open>pointer\<close> = 2000 and
  \<^verbatim>\<open>FB_PIXELS()\<close> = 1000, the candidate of \<^verbatim>\<open>fb_alloc(3000)\<close> is \<open>- 1004\<close>, below the floor;
  the call raises nothing, stores the header 3004 at address 4294966292, moves
  \<^verbatim>\<open>pointer\<close> there and returns 4294966296. The candidate of \<^verbatim>\<open>fb_alloc(4294967293)\<close> is
  below the floor as well; the rounding overflows to 0, and the call moves \<^verbatim>\<open>pointer\<close> to
  1996 and returns 2000, a block with no payload. With addresses in SRAM, \<^verbatim>\<open>pointer\<close> =
  \<^verbatim>\<open>0x20028000\<close> and \<^verbatim>\<open>FB_PIXELS()\<close> = \<^verbatim>\<open>0x20014000\<close>, the call \<^verbatim>\<open>fb_alloc(0x30000000)\<close>
  likewise raises nothing and returns \<^verbatim>\<open>0xF0028000\<close>.
\<close>

theorem collision_check_wraps:
  "int (unat (2000 :: addr)) - int (4 * ((unat (3000 :: 32 word) + 3) div 4)) - 4
     < int (unat (1000 :: addr)) \<and>
   fst (fb_alloc 1000 3000 \<lparr>pointer = 2000, mem = m\<rparr>) = Inr 4294966296 \<and>
   pointer (snd (fb_alloc 1000 3000 \<lparr>pointer = 2000, mem = m\<rparr>)) = 4294966292 \<and>
   load32 (mem (snd (fb_alloc 1000 3000 \<lparr>pointer = 2000, mem = m\<rparr>))) 4294966292 = 3004 \<and>
   int (unat (2000 :: addr)) - int (4 * ((unat (4294967293 :: 32 word) + 3) div 4)) - 4
     < int (unat (1000 :: addr)) \<and>
   round_up 4294967293 = 0 \<and>
   fst (fb_alloc 1000 4294967293 \<lparr>pointer = 2000, mem = m\<rparr>) = Inr 2000 \<and>
   pointer (snd (fb_alloc 1000 4294967293 \<lparr>pointer = 2000, mem = m\<rparr>)) = 1996 \<and>
   load32 (mem (snd (fb_alloc 1000 4294967293 \<lparr>pointer = 2000, mem = m\<rparr>))) 1996 = 4 \<and>
   int (unat (0x20028000 :: addr)) - int (4 * ((unat (0x30000000 :: 32 word) + 3) div 4)) - 4
     < int (unat (0x20014000 :: addr)) \<and>
   fst (fb_alloc 0x20014000 0x30000000 \<lparr>pointer = 0x20028000, mem = m\<rparr>) = Inr 0xF0028000 \<and>
   pointer (snd (fb_alloc 0x20014000 0x30000000 \<lparr>pointer = 0x20028000, mem = m\<rparr>))
     = 0xF0027FFC"
  by (simp add: fb_eval)

section \<open>Bounds, stack discipline and alignment\<close>

text \<open>
  C9. When nothing is allocated (\<^verbatim>\<open>pointer == &_fs_cache\<close>), any number of calls of
  \<^verbatim>\<open>fb_free\<close> leaves the state as it was; \<^verbatim>\<open>fb_free\<close> has no way to signal an error.
\<close>

theorem fb_free_empty_noop:
  "pointer s = fs_cache \<Longrightarrow> (fb_free fs_cache ^^ n) s = s"
  by (induction n) (simp_all add: fb_free_def)

theorem fb_free_empty_noop_witness:
  "pointer \<lparr>pointer = 2000, mem = (\<lambda>_. 0)\<rparr> = (2000 :: addr) \<and>
   (fb_free 2000 ^^ 3) \<lparr>pointer = 2000, mem = (\<lambda>_. 0)\<rparr> = \<lparr>pointer = 2000, mem = (\<lambda>_. 0)\<rparr>"
  using fb_free_empty_noop [of "\<lparr>pointer = 2000, mem = (\<lambda>_. 0)\<rparr>" 2000 3]
  by simp

text \<open>
  C1. After any calls that raise nothing, \<^verbatim>\<open>pointer\<close> is to lie between the floor and
  \<^verbatim>\<open>&_fs_cache\<close>. For small requests it does (\<open>exec_calls_heap_ok\<close>, \<open>heap_ok_bounds\<close>).
  With \<^verbatim>\<open>&_fs_cache\<close> = 2000 and \<^verbatim>\<open>FB_PIXELS()\<close> = 1000, the calls
  \<^verbatim>\<open>fb_alloc_init0(); fb_alloc(3000);\<close> raise nothing and leave \<^verbatim>\<open>pointer\<close> at 4294966292,
  above \<^verbatim>\<open>&_fs_cache\<close>. With \<^verbatim>\<open>&_fs_cache\<close> = \<^verbatim>\<open>0x20028000\<close> and \<^verbatim>\<open>FB_PIXELS()\<close> =
  \<^verbatim>\<open>0x20014000\<close>, \<^verbatim>\<open>fb_alloc_init0(); fb_alloc(0x30000000);\<close> leave it at \<^verbatim>\<open>0xF0027FFC\<close>.
  Once a wrapped request has been accepted, \<^verbatim>\<open>pointer\<close> can also end below the floor: with
  \<^verbatim>\<open>&_fs_cache\<close> = 2000, \<^verbatim>\<open>FB_PIXELS()\<close> = 1000 and a memory that holds the word
  \<^verbatim>\<open>0xFFFFFC18\<close> at 1988, the calls
  \<^verbatim>\<open>fb_alloc_init0(); fb_alloc(264); fb_alloc(4294967288); fb_alloc0(1);\<close> and four calls of
  \<^verbatim>\<open>fb_free\<close> raise nothing and leave it at 988 (the steps are those of C10 below).
\<close>

theorem pointer_leaves_region:
  "(1000 :: addr) \<le> 2000 \<and>
   pointer_after 2000 1000 [Init0, Alloc 3000] s = Inr 4294966292 \<and>
   \<not> (4294966292 :: addr) \<le> 2000 \<and>
   (0x20014000 :: addr) \<le> 0x20028000 \<and>
   pointer_after 0x20028000 0x20014000 [Init0, Alloc 0x30000000] s = Inr 0xF0027FFC \<and>
   \<not> (0xF0027FFC :: addr) \<le> 0x20028000 \<and>
   map (\<lambda>n. pointer_after 2000 1000
          (take n [Init0, Alloc 264, Alloc 4294967288, Alloc0 1, Free, Free, Free, Free])
          \<lparr>pointer = 0,
           mem = (\<lambda>a. if a = 1988 then 0x18 else if a = 1989 then 0xFC else 0xFF)\<rparr>)
       [1, 2, 3, 4, 5, 6, 7, 8] =
     [Inr 2000, Inr 1732, Inr 1736, Inr 1728, Inr 1736, Inr 1732, Inr 1988, Inr 988] \<and>
   (988 :: addr) < 1000"
  by (simp add: fb_eval)

text \<open>
  C4. After \<open>n\<close> allocations that return and \<open>n\<close> calls of \<^verbatim>\<open>fb_free\<close>, \<^verbatim>\<open>pointer\<close> is to
  be where it was. For small requests it is (\<open>allocs_then_frees\<close>). With \<^verbatim>\<open>&_fs_cache\<close> =
  \<^verbatim>\<open>pointer\<close> = 2000 and \<^verbatim>\<open>FB_PIXELS()\<close> = 1000, \<^verbatim>\<open>fb_alloc(3000); fb_free();\<close> leaves
  \<^verbatim>\<open>pointer\<close> at 4294966292, where \<^verbatim>\<open>fb_free\<close> pops nothing; and
  \<^verbatim>\<open>fb_alloc(8); fb_alloc(4294967292); fb_free(); fb_free();\<close> leaves it at 1988: the second
  call returns 1992, the payload of the first, and overwrites the header of the first with
  0.
\<close>

theorem frees_do_not_undo_wrapped_alloc:
  "pointer_after 2000 1000 (map Alloc [3000] @ replicate (length [3000 :: 32 word]) Free)
     \<lparr>pointer = 2000, mem = m\<rparr> = Inr 4294966292 \<and>
   pointer_after 2000 1000
     (map Alloc [8, 4294967292] @ replicate (length [8, 4294967292 :: 32 word]) Free)
     \<lparr>pointer = 2000, mem = m\<rparr> = Inr 1988 \<and>
   fst (fb_alloc 1000 8 \<lparr>pointer = 2000, mem = m\<rparr>) = Inr 1992 \<and>
   fst (fb_alloc 1000 4294967292 (snd (fb_alloc 1000 8 \<lparr>pointer = 2000, mem = m\<rparr>))) = Inr 1992 \<and>
   load32 (mem (snd (fb_alloc 1000 4294967292 (snd (fb_alloc 1000 8 \<lparr>pointer = 2000, mem = m\<rparr>)))))
     1988 = 0"
  by (simp add: fb_eval)

text \<open>
  C10. With \<^verbatim>\<open>&_fs_cache\<close> a multiple of 4, \<^verbatim>\<open>pointer\<close> and every pointer returned are to
  be multiples of 4. For small requests they are (\<open>exec_calls_heap_ok\<close>,
  \<open>heap_ok_aligned\<close>, \<open>small_request_result_aligned\<close>). With \<^verbatim>\<open>&_fs_cache\<close> = 2000,
  \<^verbatim>\<open>FB_PIXELS()\<close> = 1000 and a memory whose bytes are all 1, the calls
  \<^verbatim>\<open>fb_alloc_init0(); fb_alloc(264); fb_alloc(4294967288); fb_alloc0(1);\<close> and four calls of
  \<^verbatim>\<open>fb_free\<close> raise nothing and leave \<^verbatim>\<open>pointer\<close> at 16844997. The second request wraps
  and moves \<^verbatim>\<open>pointer\<close> up to 1736, into the first block; the third zeroes the low byte of
  the first header at 1732, which then reads 256; the frees go to 1736, 1732, 1988, and
  from there by the word found at 1988, which no call has written.
\<close>

theorem pointer_loses_alignment:
  "4 dvd unat (2000 :: addr) \<and>
   map (\<lambda>n. pointer_after 2000 1000
          (take n [Init0, Alloc 264, Alloc 4294967288, Alloc0 1, Free, Free, Free, Free])
          \<lparr>pointer = 0, mem = (\<lambda>_. 1)\<rparr>) [1, 2, 3, 4, 5, 6, 7, 8] =
     [Inr 2000, Inr 1732, Inr 1736, Inr 1728, Inr 1736, Inr 1732, Inr 1988, Inr 16844997] \<and>
   \<not> 4 dvd unat (16844997 :: addr)"
  by (simp add: fb_eval)

section \<open>Writes below the floor\<close>











section \<open>Zeroed allocation\<close>

lemma fb_alloc0_zero: "fb_alloc0 fb_pixels 0 s = (Inr NULL, s)"
  by (simp add: fb_alloc0_def fb_alloc_def)

text \<open>
  C8. \<^verbatim>\<open>fb_alloc0\<close> is to behave as \<^verbatim>\<open>fb_alloc\<close> and zero the payload. Up to a size of
  \<open>2 ^ 32 - 4\<close> it returns the same pointer, moves \<^verbatim>\<open>pointer\<close> alike, leaves the same header
  and zeroes the bytes asked for (\<open>fb_alloc0_same_block\<close>, \<open>fb_alloc0_zeroes\<close>), and for
  size 0 it returns the null pointer and writes nothing (\<open>fb_alloc0_zero\<close>). With
  \<^verbatim>\<open>pointer\<close> = 2000, \<^verbatim>\<open>FB_PIXELS()\<close> = 1000 and a memory whose bytes are all 1,
  \<^verbatim>\<open>fb_alloc0(4294967293)\<close> gets a block with no payload (the rounding overflows to 0) and
  zeroes 4294967293 bytes from the returned pointer 2000 on: the byte at 2000, outside
  the region, the byte at 0, below the floor, and the low byte of its own header at 1996,
  which reads 0 where \<^verbatim>\<open>fb_alloc\<close> leaves 4.
\<close>

theorem fb_alloc0_overruns_block:
  "round_up 4294967293 = 0 \<and>
   fst (fb_alloc0 1000 4294967293 \<lparr>pointer = 2000, mem = (\<lambda>_. 1)\<rparr>) = Inr 2000 \<and>
   pointer (snd (fb_alloc0 1000 4294967293 \<lparr>pointer = 2000, mem = (\<lambda>_. 1)\<rparr>)) = 1996 \<and>
   load32 (mem (snd (fb_alloc 1000 4294967293 \<lparr>pointer = 2000, mem = (\<lambda>_. 1)\<rparr>))) 1996 = 4 \<and>
   load32 (mem (snd (fb_alloc0 1000 4294967293 \<lparr>pointer = 2000, mem = (\<lambda>_. 1)\<rparr>))) 1996 = 0 \<and>
   mem (snd (fb_alloc0 1000 4294967293 \<lparr>pointer = 2000, mem = (\<lambda>_. 1)\<rparr>)) 2000 = 0 \<and>
   mem (snd (fb_alloc0 1000 4294967293 \<lparr>pointer = 2000, mem = (\<lambda>_. 1)\<rparr>)) 0 = 0"
  by (simp add: fb_eval)

section \<open>Mark and release\<close>

text \<open>Where the header at \<^verbatim>\<open>pointer\<close> is 0, no number of frees moves \<^verbatim>\<open>pointer\<close>.\<close>

lemma fb_free_fixed_funpow:
  "fb_free fs_cache s = s \<Longrightarrow> (fb_free fs_cache ^^ n) s = s"
  by (induction n) simp_all

lemma fb_free_zero_header:
  "load32 (mem s) (pointer s) = 0 \<Longrightarrow> fb_free fs_cache s = s"
  by (simp add: fb_free_def)

text \<open>
  C6. \<^verbatim>\<open>mark(); allocate(x); allocate(y); release_to_mark();\<close> is to leave \<^verbatim>\<open>pointer\<close> and
  the mark stack as they were, whenever both allocations return. For small requests it
  does (\<open>mark_round_trip\<close>). With \<^verbatim>\<open>&_fs_cache\<close> = \<^verbatim>\<open>pointer\<close> = 2000 and \<^verbatim>\<open>FB_PIXELS()\<close> =
  1000, \<^verbatim>\<open>allocate(8)\<close> and \<^verbatim>\<open>allocate(4294967292)\<close> both return 1992: the second request
  wraps back onto \<^verbatim>\<open>pointer\<close> = 1988 and overwrites the header there with 0, every access
  being in 1988 .. 1991. After any number \<open>n\<close> of pops \<^verbatim>\<open>pointer\<close> is still 1988 and not the
  mark 2000, and the release never returns.
\<close>

theorem release_never_returns:
  "fst (arena_alloc 1000 8
          (fb_alloc_mark \<lparr>core = \<lparr>pointer = 2000, mem = m\<rparr>, marks = ms\<rparr>)) = Inr 1992 \<and>
   fst (arena_alloc 1000 4294967292
          (snd (arena_alloc 1000 8
            (fb_alloc_mark \<lparr>core = \<lparr>pointer = 2000, mem = m\<rparr>, marks = ms\<rparr>)))) = Inr 1992 \<and>
   load32 (mem (snd (fb_alloc 1000 4294967292 (snd (fb_alloc 1000 8 \<lparr>pointer = 2000, mem = m\<rparr>)))))
     1988 = 0 \<and>
   pointer ((fb_free 2000 ^^ n)
      (snd (fb_alloc 1000 4294967292 (snd (fb_alloc 1000 8 \<lparr>pointer = 2000, mem = m\<rparr>)))))
     = 1988 \<and>
   mark_alloc_alloc_release 2000 1000 8 4294967292
      \<lparr>core = \<lparr>pointer = 2000, mem = m\<rparr>, marks = ms\<rparr> = Inr None"
proof -
  let ?s2 = "snd (fb_alloc 1000 4294967292 (snd (fb_alloc 1000 8 \<lparr>pointer = 2000, mem = m\<rparr>)))"
  have p: "pointer ?s2 = 1988" and h: "load32 (mem ?s2) 1988 = 0"
    by (simp_all add: fb_eval)
  have stuck: "fb_free 2000 ?s2 = ?s2"
    by (rule fb_free_zero_header) (simp only: p h)
  have loop: "free_until 2000 2000 ?s2 = None"
    using stuck by (intro free_until_stuck) (simp add: p)
  have x: "fst (fb_alloc 1000 8 \<lparr>pointer = 2000, mem = m\<rparr>) = Inr 1992"
    by (simp add: fb_alloc_def round_up_def Let_def)
  have y: "fst (fb_alloc 1000 4294967292 (snd (fb_alloc 1000 8 \<lparr>pointer = 2000, mem = m\<rparr>)))
      = Inr 1992"
    by (simp add: fb_alloc_def round_up_def Let_def)
  have "mark_alloc_alloc_release 2000 1000 8 4294967292
      \<lparr>core = \<lparr>pointer = 2000, mem = m\<rparr>, marks = ms\<rparr> = Inr None"
    by (simp add: mark_alloc_alloc_release_def arena_alloc_def fb_alloc_mark_def
        fb_alloc_free_till_mark_def case_prod_unfold x y loop)
  moreover have "pointer ((fb_free 2000 ^^ n) ?s2) = 1988"
    by (simp only: fb_free_fixed_funpow [OF stuck] p)
  ultimately show ?thesis
    using h by (simp add: arena_alloc_def fb_alloc_mark_def case_prod_unfold x y)
qed

end
